theory Spec2Isabelle
  imports Main "HOL-Library.Word" "HOL-Library.AList"
begin

section \<open>Platform model\<close>

text \<open>
  The sketch \<^verbatim>\<open>ESP32-S3-WROOM-SDTF-Photograph.ino\<close> talks to four collaborators: the
  camera driver, the SD/TF card, the button line and the millisecond clock. They are
  modelled by a world record that the sketch's functions pass along, and by the answers the
  collaborators give, which are inputs of the model.
\<close>

type_synonym byte = "8 word"
type_synonym uint32 = "32 word"

abbreviation (input) HIGH :: bool where "HIGH \<equiv> True"
abbreviation (input) LOW :: bool where "LOW \<equiv> False"

definition BUTTON_PIN :: int where
  "BUTTON_PIN = 47"

definition DEBOUNCE_MS :: nat where
  "DEBOUNCE_MS = 40"

text \<open>\<^verbatim>\<open>camera_fb_t\<close>: the fields of the frame buffer that the sketch reads.\<close>

record camera_fb_t =
  buf :: "byte list"
  len :: nat

text \<open>
  Every call that leaves the sketch is recorded, in the order of execution: in \<open>trace\<close>
  the calls, in \<open>timed\<close> the same calls, each with the clock reading at which it was made.
\<close>

datatype event =
    PinMode int
  | DigitalWrite int bool
  | FbGet
  | FbReturn camera_fb_t
  | ReadFileNum string
  | FileOpen string
  | FileWrite string "byte list"
  | FileFlush string
  | FileClose string
  | Println string
  | WdtReset
  | SdmmcInit
  | CreateDir string
  | CameraInit nat nat bool
  | SensorTune

text \<open>
  The world: the clock in milliseconds since boot, the entries of the card's capture
  directory (path and contents, in directory order), the calls made so far, without and
  with their times, and the two \<^verbatim>\<open>static\<close> variables of \<^verbatim>\<open>loop\<close>.
\<close>

record world =
  clock :: nat
  dir :: "(string \<times> byte list) list"
  trace :: "event list"
  timed :: "(nat \<times> event) list"
  last_st :: bool
  edge_st :: uint32

text \<open>
  What the collaborators answer during one call of \<^verbatim>\<open>takePhoto\<close>: the frame (or
  \<^verbatim>\<open>NULL\<close>), whether the directory can be counted, whether the file opens, how many bytes
  \<^verbatim>\<open>write\<close> accepts, whether \<^verbatim>\<open>flush\<close> succeeds, and the milliseconds spent in the
  camera and in the card.
\<close>

record capture_io =
  fb_get :: "camera_fb_t option"
  t_acquire :: nat
  num_ok :: bool
  open_ok :: bool
  write_n :: nat
  flush_ok :: bool
  t_store :: nat

definition emit :: "event \<Rightarrow> world \<Rightarrow> world" where
  "emit e w = timed_update (\<lambda>tes. tes @ [(clock w, e)]) (trace_update (\<lambda>es. es @ [e]) w)"

definition delay :: "nat \<Rightarrow> world \<Rightarrow> world" where
  "delay ms w = clock_update (\<lambda>c. c + ms) w"

text \<open>\<^verbatim>\<open>millis()\<close> is a \<^verbatim>\<open>uint32_t\<close>: the clock modulo \<open>2 ^ 32\<close>.\<close>

definition millis :: "world \<Rightarrow> uint32" where
  "millis w = of_nat (clock w)"

definition digitalWrite :: "int \<Rightarrow> bool \<Rightarrow> world \<Rightarrow> world" where
  "digitalWrite p lvl w = emit (DigitalWrite p lvl) w"

definition pinMode :: "int \<Rightarrow> world \<Rightarrow> world" where
  "pinMode p w = emit (PinMode p) w"

subsection \<open>The indicator helpers\<close>

text \<open>\<^verbatim>\<open>LED_PIN\<close> is a parameter: the sketch sets it to \<open>-1\<close> (no indicator).\<close>

definition ledSetup :: "int \<Rightarrow> world \<Rightarrow> world" where
  "ledSetup LED_PIN w =
     (if LED_PIN \<ge> 0 then digitalWrite LED_PIN HIGH (pinMode LED_PIN w) else w)"

definition ledOn :: "int \<Rightarrow> world \<Rightarrow> world" where
  "ledOn LED_PIN w = (if LED_PIN \<ge> 0 then digitalWrite LED_PIN LOW w else w)"

definition ledOff :: "int \<Rightarrow> world \<Rightarrow> world" where
  "ledOff LED_PIN w = (if LED_PIN \<ge> 0 then digitalWrite LED_PIN HIGH w else w)"

subsection \<open>The card and the camera\<close>

text \<open>
  Modelled from the spec: \<^verbatim>\<open>readFileNum\<close> is declared in \<^verbatim>\<open>sd_read_write.h\<close>, which is not
  among the sources. The spec calls it the "count existing entries in directory" query that
  may fail; the sketch tests its result with \<^verbatim>\<open>idx < 0\<close>. It returns the number of entries of
  the directory as a 32-bit \<^verbatim>\<open>int\<close>, or \<open>-1\<close> when the query fails.
\<close>

definition readFileNum :: "capture_io \<Rightarrow> string \<Rightarrow> world \<Rightarrow> uint32 \<times> world" where
  "readFileNum io d w =
     ((if num_ok io then of_nat (length (dir w)) else - 1), emit (ReadFileNum d) w)"

text \<open>
  \<^verbatim>\<open>SD_MMC.open(path, FILE_WRITE)\<close> creates the file, or empties the one that is there;
  \<^verbatim>\<open>write\<close> stores the bytes the card accepts.
\<close>

definition sd_open :: "string \<Rightarrow> world \<Rightarrow> world" where
  "sd_open path w = emit (FileOpen path) (dir_update (AList.update path []) w)"

definition file_write :: "capture_io \<Rightarrow> string \<Rightarrow> byte list \<Rightarrow> world \<Rightarrow> world" where
  "file_write io path bs w =
     emit (FileWrite path bs) (dir_update (AList.update path (take (write_n io) bs)) w)"

definition file_flush :: "string \<Rightarrow> world \<Rightarrow> world" where
  "file_flush path w = emit (FileFlush path) w"

definition file_close :: "string \<Rightarrow> world \<Rightarrow> world" where
  "file_close path w = emit (FileClose path) w"

definition esp_camera_fb_return :: "camera_fb_t \<Rightarrow> world \<Rightarrow> world" where
  "esp_camera_fb_return fb w = emit (FbReturn fb) w"

subsection \<open>Arduino's \<^verbatim>\<open>String(int)\<close>: decimal digits, with a sign\<close>

fun digits :: "nat \<Rightarrow> string" where
  "digits n =
     (if n < 10 then [char_of (48 + n)]
      else digits (n div 10) @ [char_of (48 + n mod 10)])"

declare digits.simps [simp del]

definition String_int :: "int \<Rightarrow> string" where
  "String_int i = (if i < 0 then CHR ''-'' # digits (nat (- i)) else digits (nat i))"

section \<open>The capture sequencer: \<^verbatim>\<open>takePhoto\<close>\<close>

definition takePhoto :: "int \<Rightarrow> capture_io \<Rightarrow> world \<Rightarrow> world" where
  "takePhoto LED_PIN io w =
     (let w1 = ledOn LED_PIN w;
          w2 = delay (t_acquire io) (emit FbGet w1)
      in case fb_get io of
           None \<Rightarrow> ledOff LED_PIN (emit (Println ''Capture failed'') w2)
         | Some fb \<Rightarrow>
             (let (n, w3) = readFileNum io ''/camera'' w2;
                  idx = (if sint n < 0 then millis w3 else n);
                  path = ''/camera/'' @ String_int (sint idx) @ ''.jpg''
              in if \<not> open_ok io
                 then ledOff LED_PIN
                        (esp_camera_fb_return fb
                          (emit (Println ''File open failed'') (emit (FileOpen path) w3)))
                 else
                   (let w4 = sd_open path w3;
                        w5 = file_write io path (take (len fb) (buf fb)) w4;
                        w6 = file_flush path w5;
                        w7 = delay (t_store io) (file_close path w6);
                        w8 = esp_camera_fb_return fb w7;
                        w9 = emit (Println (''Saved: '' @ path)) w8
                    in ledOff LED_PIN w9)))"

text \<open>The calls made by one run of a function: what it added to the trace.\<close>

definition new_events :: "world \<Rightarrow> world \<Rightarrow> event list" where
  "new_events w w' = drop (length (trace w)) (trace w')"

text \<open>The same, each call with the clock reading at which it was made.\<close>

definition timed_events :: "world \<Rightarrow> world \<Rightarrow> (nat \<times> event) list" where
  "timed_events w w' = drop (length (timed w)) (timed w')"

text \<open>The target path the sketch derives in a world, given the card's answers.\<close>

definition target_path :: "capture_io \<Rightarrow> world \<Rightarrow> string" where
  "target_path io w =
     (let n = (if num_ok io then of_nat (length (dir w)) else - 1 :: uint32);
          idx = (if sint n < 0 then of_nat (clock w + t_acquire io) else n)
      in ''/camera/'' @ String_int (sint idx) @ ''.jpg'')"

fun is_file_op :: "event \<Rightarrow> bool" where
  "is_file_op (FileWrite p bs) = True"
| "is_file_op (FileFlush p) = True"
| "is_file_op (FileClose p) = True"
| "is_file_op e = False"

fun is_release :: "event \<Rightarrow> bool" where
  "is_release (FbReturn fb) = True"
| "is_release e = False"

fun is_led_write :: "event \<Rightarrow> bool" where
  "is_led_write (DigitalWrite p lvl) = True"
| "is_led_write e = False"

subsection \<open>The status of a capture, as the spec names it\<close>

text \<open>
  \<^verbatim>\<open>takePhoto\<close> returns \<^verbatim>\<open>void\<close>; what it reports is the line it prints. The spec's
  \<^verbatim>\<open>captureAndStore\<close> is \<^verbatim>\<open>takePhoto\<close> together with the status read from that line.
\<close>

datatype status = Success string | SensorFault | StorageFault

definition status_of_line :: "string \<Rightarrow> status option" where
  "status_of_line s =
     (if s = ''Capture failed'' then Some SensorFault
      else if s = ''File open failed'' then Some StorageFault
      else if take 7 s = ''Saved: '' then Some (Success (drop 7 s))
      else None)"

fun status_of_event :: "event \<Rightarrow> status option" where
  "status_of_event (Println s) = status_of_line s"
| "status_of_event e = None"

definition reports :: "event list \<Rightarrow> status list" where
  "reports es = List.map_filter status_of_event es"

definition captureAndStore :: "int \<Rightarrow> capture_io \<Rightarrow> world \<Rightarrow> status list \<times> world" where
  "captureAndStore LED_PIN io w =
     (let w' = takePhoto LED_PIN io w in (reports (new_events w w'), w'))"

fun saved_path :: "status \<Rightarrow> string option" where
  "saved_path (Success p) = Some p"
| "saved_path s = None"

definition saved_paths :: "world \<Rightarrow> string list" where
  "saved_paths w = List.map_filter saved_path (reports (trace w))"

section \<open>The poll loop: \<^verbatim>\<open>loop\<close>\<close>

text \<open>
  The surroundings of a running sketch: the level of the button line at each millisecond,
  and the answers the collaborators give to a capture that starts at a given millisecond.
\<close>

record env =
  pin :: "nat \<Rightarrow> bool"
  shot :: "nat \<Rightarrow> capture_io"

text \<open>
  The wait for release: \<^verbatim>\<open>while (digitalRead(BUTTON_PIN) == LOW) { ... }\<close>. Only
  \<^verbatim>\<open>delay\<close> and the collaborators take time.
\<close>

function wait_release :: "env \<Rightarrow> uint32 \<Rightarrow> world \<Rightarrow> world" where
  "wait_release e t0 w =
     (if pin e (clock w) = LOW
      then (let w1 = emit WdtReset w
            in if millis w1 - t0 > 2000 then w1
               else wait_release e t0 (delay 5 w1))
      else w)"
  by pat_completeness auto
termination
proof (relation "measure (\<lambda>(e, t0, w). 2006 - unat (millis w - t0))")
  show "wf (measure (\<lambda>(e, t0, w). 2006 - unat (millis w - t0)))"
    by simp
next
  fix e :: env and t0 :: uint32 and w w1 :: world
  assume w1: "w1 = emit WdtReset w" and run: "\<not> 2000 < millis w1 - t0"
  let ?x = "millis w - t0"
  have le: "unat ?x \<le> 2000"
    using run by (simp add: w1 millis_def emit_def word_less_nat_alt not_less)
  have "millis (delay 5 w1) - t0 = ?x + 5"
    by (simp add: w1 millis_def delay_def emit_def)
  moreover have "unat (?x + 5) = unat ?x + 5"
    using le by (simp add: unat_word_ariths)
  ultimately have "unat (millis (delay 5 w1) - t0) = unat ?x + 5"
    by (simp only:)
  with le have "2006 - unat (millis (delay 5 w1) - t0) < 2006 - unat ?x"
    by arith
  then show "((e, t0, delay 5 w1), (e, t0, w)) \<in> measure (\<lambda>(e, t0, w). 2006 - unat (millis w - t0))"
    by simp
qed

definition loop :: "int \<Rightarrow> env \<Rightarrow> world \<Rightarrow> world" where
  "loop LED_PIN e w =
     (let now = pin e (clock w);
          w1 = (if last_st w = HIGH \<and> now = LOW then edge_st_update (\<lambda>_. millis w) w else w);
          w2 = (if last_st w1 = LOW \<and> now = LOW \<and> millis w1 - edge_st w1 > of_nat DEBOUNCE_MS
                then (let w3 = takePhoto LED_PIN (shot e (clock w1)) w1;
                          t0 = millis w3;
                          w4 = wait_release e t0 w3
                      in delay DEBOUNCE_MS w4)
                else w1)
      in last_st_update (\<lambda>_. now) w2)"

text \<open>
  The Arduino core calls \<^verbatim>\<open>loop\<close> again and again. A poll schedule lists, for each call,
  the milliseconds that pass between the return of the previous call and this one (mostly 0).
\<close>

fun run :: "int \<Rightarrow> env \<Rightarrow> nat list \<Rightarrow> world \<Rightarrow> world" where
  "run LED_PIN e [] w = w"
| "run LED_PIN e (g # gs) w = run LED_PIN e gs (loop LED_PIN e (delay g w))"

text \<open>An activation is a call of \<^verbatim>\<open>takePhoto\<close>; each call asks the camera for one frame.\<close>

definition activations :: "world \<Rightarrow> nat" where
  "activations w = length (filter (\<lambda>ev. ev = FbGet) (trace w))"

text \<open>
  One discrete press within a stretch of time: from \<open>c\<close> to \<open>T\<close>, the line is low
  exactly from \<open>a\<close> up to, not including, \<open>b\<close>.
\<close>

definition single_press :: "env \<Rightarrow> nat \<Rightarrow> nat \<Rightarrow> nat \<Rightarrow> nat \<Rightarrow> bool" where
  "single_press e a b c T = (\<forall>t. c \<le> t \<and> t \<le> T \<longrightarrow> pin e t = (t < a \<or> b \<le> t))"

section \<open>Start-up: \<^verbatim>\<open>setup\<close>\<close>

text \<open>
  Modelled from the spec: \<^verbatim>\<open>sdmmcInit\<close> and \<^verbatim>\<open>createDir\<close> are declared in
  \<^verbatim>\<open>sd_read_write.h\<close>, which is not among the sources; they are the spec's storage mount
  and directory-ensure for the capture directory. The sketch calls both as statements, so
  whether they succeed (\<open>mount_ok\<close>, \<open>mkdir_ok\<close>) is an answer that \<^verbatim>\<open>setup\<close> never
  reads. The other two answers are \<^verbatim>\<open>psramFound()\<close> and whether \<^verbatim>\<open>esp_camera_init\<close>
  returns \<^verbatim>\<open>ESP_OK\<close>.
\<close>

record boot_io =
  mount_ok :: bool
  mkdir_ok :: bool
  psramFound :: bool
  camera_init_ok :: bool

text \<open>
  \<^verbatim>\<open>cameraSetup\<close>: of the configuration, the call of \<^verbatim>\<open>esp_camera_init\<close> records the
  JPEG quality, the number of frame buffers and whether the grab mode is
  \<^verbatim>\<open>CAMERA_GRAB_LATEST\<close>, which depend on the PSRAM; the pin table and the fixed fields are
  left out. The six sensor settings that follow a successful initialisation are one event.
\<close>

definition cameraSetup :: "boot_io \<Rightarrow> world \<Rightarrow> bool \<times> world" where
  "cameraSetup b w =
     (let (jpeg_quality, fb_count, grab_latest) =
            (if psramFound b then (10, 2, True) else (12, 1, False));
          w1 = emit (CameraInit jpeg_quality fb_count grab_latest) w
      in if \<not> camera_init_ok b then (False, w1) else (True, emit SensorTune w1))"

text \<open>One round of the halt loop of \<^verbatim>\<open>setup\<close>.\<close>

definition blink :: "int \<Rightarrow> world \<Rightarrow> world" where
  "blink LED_PIN w = delay 100 (ledOff LED_PIN (delay 100 (ledOn LED_PIN w)))"

text \<open>
  \<^verbatim>\<open>setup\<close> may never return. How far it got is told by an outcome: \<open>Returned w\<close> when
  it has returned, in world \<open>w\<close>; \<open>Running w\<close> when, after the number of rounds of its halt
  loop that it was granted, it is still in that loop, in world \<open>w\<close>.
\<close>

datatype outcome = Returned world | Running world

fun returned :: "outcome \<Rightarrow> bool" where
  "returned (Returned w) = True"
| "returned (Running w) = False"

fun world_of :: "outcome \<Rightarrow> world" where
  "world_of (Returned w) = w"
| "world_of (Running w) = w"

text \<open>
  \<^verbatim>\<open>while (true) { ledOn(); delay(100); ledOff(); delay(100); }\<close>, granted \<open>n\<close> rounds.
  The loop has no exit, so no number of rounds gives \<open>Returned\<close>.
\<close>

fun halt_blink :: "nat \<Rightarrow> int \<Rightarrow> world \<Rightarrow> outcome" where
  "halt_blink 0 LED_PIN w = Running w"
| "halt_blink (Suc n) LED_PIN w = halt_blink n LED_PIN (blink LED_PIN w)"

text \<open>
  The function \<^verbatim>\<open>setup\<close> of the sketch, called \<open>setup_sketch\<close> here, with \<open>n\<close> rounds
  granted to its halt loop. \<^verbatim>\<open>Serial.begin\<close> is left out; the two \<^verbatim>\<open>Serial.println\<close>
  are events.
\<close>

definition setup_sketch :: "nat \<Rightarrow> int \<Rightarrow> boot_io \<Rightarrow> world \<Rightarrow> outcome" where
  "setup_sketch n LED_PIN b w =
     (let w1 = pinMode BUTTON_PIN w;
          w2 = ledOn LED_PIN (ledSetup LED_PIN w1);
          w3 = emit SdmmcInit w2;
          w4 = emit (CreateDir ''/camera'') w3;
          (ok, w5) = cameraSetup b w4
      in if \<not> ok then halt_blink n LED_PIN (emit (Println ''Camera init FAILED'') w5)
         else Returned (emit (Println ''Setup done, ready for button.'') (ledOff LED_PIN w5)))"

text \<open>The world at power-on, with the card's capture directory as found.\<close>

definition power_on :: "(string \<times> byte list) list \<Rightarrow> world" where
  "power_on d = \<lparr>clock = 0, dir = d, trace = [], timed = [], last_st = HIGH, edge_st = 0\<rparr>"

text \<open>
  The sketch as the Arduino core runs it: \<^verbatim>\<open>setup\<close> once and, when it has returned,
  \<^verbatim>\<open>loop\<close> once per poll.
\<close>

definition sketch ::
    "nat \<Rightarrow> int \<Rightarrow> boot_io \<Rightarrow> env \<Rightarrow> (string \<times> byte list) list \<Rightarrow> nat list \<Rightarrow> outcome" where
  "sketch n LED_PIN b e d gs =
     (case setup_sketch n LED_PIN b (power_on d) of
        Running w \<Rightarrow> Running w
      | Returned w \<Rightarrow> Returned (run LED_PIN e gs w))"

section \<open>Two yardsticks\<close>

text \<open>
  The debouncer as a function of the poll schedule alone, for a line that is low exactly
  from \<open>a\<close> up to \<open>b\<close>. \<open>press_fires a b c gs\<close>: starting at time \<open>c\<close> with the line
  last seen high, some poll of the schedule \<open>gs\<close> sees the line low more than
  \<^verbatim>\<open>DEBOUNCE_MS\<close> after the first poll that saw it low. \<open>fires_held s b c gs\<close> is the
  same once the first low poll, at time \<open>s\<close>, has happened.
\<close>

fun fires_held :: "nat \<Rightarrow> nat \<Rightarrow> nat \<Rightarrow> nat list \<Rightarrow> bool" where
  "fires_held s b c [] = False"
| "fires_held s b c (g # gs) =
     (if b \<le> c + g then False
      else if DEBOUNCE_MS < c + g - s then True
      else fires_held s b (c + g) gs)"

fun press_fires :: "nat \<Rightarrow> nat \<Rightarrow> nat \<Rightarrow> nat list \<Rightarrow> bool" where
  "press_fires a b c [] = False"
| "press_fires a b c (g # gs) =
     (if c + g < a then press_fires a b (c + g) gs
      else if b \<le> c + g then False
      else fires_held (c + g) b (c + g) gs)"






text \<open>
  What the wait for release, entered at time \<open>c0\<close> in world \<open>w\<close>, leaves behind in
  \<open>w'\<close>: it added watchdog resets only, one per round; it ran no longer than until
  \<open>c0 + 2005\<close>; and it ended on a released line or after more than 2000 units.
\<close>

definition waited :: "env \<Rightarrow> nat \<Rightarrow> world \<Rightarrow> world \<Rightarrow> bool" where
  "waited e c0 w w' =
     (clock w \<le> clock w' \<and> clock w' \<le> c0 + 2005 \<and>
      (\<exists>n. trace w' = trace w @ replicate n WdtReset \<and>
           5 * n = clock w' - clock w + (if pin e (clock w') then 0 else 5)) \<and>
      dir w' = dir w \<and> last_st w' = last_st w \<and> edge_st w' = edge_st w \<and>
      (pin e (clock w') \<or> c0 + 2000 < clock w'))"

section \<open>Example inputs\<close>

text \<open>A four-byte frame, and the answers of a camera and a card in various moods.\<close>

definition frame_ex :: camera_fb_t where
  "frame_ex = \<lparr>buf = [0xFF, 0xD8, 0xFF, 0xD9], len = 4\<rparr>"

definition io_good :: capture_io where
  "io_good = \<lparr>fb_get = Some frame_ex, t_acquire = 30, num_ok = True, open_ok = True,
               write_n = 4, flush_ok = True, t_store = 50\<rparr>"

definition io_flush_fails :: capture_io where
  "io_flush_fails = io_good\<lparr>flush_ok := False\<rparr>"

definition io_write_fails :: capture_io where
  "io_write_fails = io_good\<lparr>write_n := 0, flush_ok := False\<rparr>"

definition io_open_fails :: capture_io where
  "io_open_fails = io_good\<lparr>open_ok := False\<rparr>"

definition io_no_frame :: capture_io where
  "io_no_frame = io_good\<lparr>fb_get := None\<rparr>"


text \<open>
  A button that is low during the listed intervals (each from its first component up to,
  not including, its second), with a camera and a card that always answer the same.
\<close>

definition button_env :: "(nat \<times> nat) list \<Rightarrow> capture_io \<Rightarrow> env" where
  "button_env ps io = \<lparr>pin = (\<lambda>t. \<not> list_ex (\<lambda>(a, b). a \<le> t \<and> t < b) ps), shot = (\<lambda>t. io)\<rparr>"

definition env_stuck :: env where
  "env_stuck = \<lparr>pin = (\<lambda>t. LOW), shot = (\<lambda>t. io_good)\<rparr>"



definition boot_ok :: boot_io where
  "boot_ok = \<lparr>mount_ok = True, mkdir_ok = True, psramFound = True, camera_init_ok = True\<rparr>"

definition boot_no_card :: boot_io where
  "boot_no_card = boot_ok\<lparr>mount_ok := False, mkdir_ok := False\<rparr>"

definition boot_no_camera :: boot_io where
  "boot_no_camera = boot_ok\<lparr>camera_init_ok := False\<rparr>"

section \<open>What each primitive does to each part of the world\<close>

lemma emit_sel [simp]:
  "trace (emit e w) = trace w @ [e]" "clock (emit e w) = clock w" "dir (emit e w) = dir w"
  "last_st (emit e w) = last_st w" "edge_st (emit e w) = edge_st w"
  "timed (emit e w) = timed w @ [(clock w, e)]"
  by (simp_all add: emit_def)

text \<open>
  For evaluation, \<open>emit\<close> works on a world whose fields are known; this keeps the world
  from being copied while it is still an unevaluated expression.
\<close>

lemma emit_code [code]:
  "emit e \<lparr>clock = c, dir = d, trace = es, timed = tes, last_st = l, edge_st = g, \<dots> = m\<rparr> =
     \<lparr>clock = c, dir = d, trace = es @ [e], timed = tes @ [(c, e)], last_st = l, edge_st = g,
      \<dots> = m\<rparr>"
  by (simp add: emit_def)

lemma delay_sel [simp]:
  "trace (delay n w) = trace w" "clock (delay n w) = clock w + n" "dir (delay n w) = dir w"
  "last_st (delay n w) = last_st w" "edge_st (delay n w) = edge_st w"
  "timed (delay n w) = timed w"
  by (simp_all add: delay_def)

lemma ledOn_sel [simp]:
  "trace (ledOn p w) = trace w @ (if p \<ge> 0 then [DigitalWrite p LOW] else [])"
  "clock (ledOn p w) = clock w" "dir (ledOn p w) = dir w"
  "last_st (ledOn p w) = last_st w" "edge_st (ledOn p w) = edge_st w"
  "timed (ledOn p w) = timed w @ (if p \<ge> 0 then [(clock w, DigitalWrite p LOW)] else [])"
  by (simp_all add: ledOn_def digitalWrite_def)

lemma ledOff_sel [simp]:
  "trace (ledOff p w) = trace w @ (if p \<ge> 0 then [DigitalWrite p HIGH] else [])"
  "clock (ledOff p w) = clock w" "dir (ledOff p w) = dir w"
  "last_st (ledOff p w) = last_st w" "edge_st (ledOff p w) = edge_st w"
  "timed (ledOff p w) = timed w @ (if p \<ge> 0 then [(clock w, DigitalWrite p HIGH)] else [])"
  by (simp_all add: ledOff_def digitalWrite_def)

lemma sd_open_sel [simp]:
  "trace (sd_open p w) = trace w @ [FileOpen p]" "clock (sd_open p w) = clock w"
  "dir (sd_open p w) = AList.update p [] (dir w)"
  "last_st (sd_open p w) = last_st w" "edge_st (sd_open p w) = edge_st w"
  by (simp_all add: sd_open_def)

lemma file_write_sel [simp]:
  "trace (file_write io p bs w) = trace w @ [FileWrite p bs]"
  "clock (file_write io p bs w) = clock w"
  "dir (file_write io p bs w) = AList.update p (take (write_n io) bs) (dir w)"
  "last_st (file_write io p bs w) = last_st w" "edge_st (file_write io p bs w) = edge_st w"
  by (simp_all add: file_write_def)

lemma file_flush_sel [simp]:
  "trace (file_flush p w) = trace w @ [FileFlush p]" "clock (file_flush p w) = clock w"
  "dir (file_flush p w) = dir w"
  "last_st (file_flush p w) = last_st w" "edge_st (file_flush p w) = edge_st w"
  by (simp_all add: file_flush_def)

lemma file_close_sel [simp]:
  "trace (file_close p w) = trace w @ [FileClose p]" "clock (file_close p w) = clock w"
  "dir (file_close p w) = dir w"
  "last_st (file_close p w) = last_st w" "edge_st (file_close p w) = edge_st w"
  by (simp_all add: file_close_def)

lemma fb_return_sel [simp]:
  "trace (esp_camera_fb_return fb w) = trace w @ [FbReturn fb]"
  "clock (esp_camera_fb_return fb w) = clock w" "dir (esp_camera_fb_return fb w) = dir w"
  "last_st (esp_camera_fb_return fb w) = last_st w"
  "edge_st (esp_camera_fb_return fb w) = edge_st w"
  by (simp_all add: esp_camera_fb_return_def)


section \<open>One call of \<^verbatim>\<open>takePhoto\<close>\<close>

lemma new_events_append: "trace w' = trace w @ es \<Longrightarrow> new_events w w' = es"
  by (simp add: new_events_def)

lemma takePhoto_trace:
  "trace (takePhoto L io w) = trace w @
     (if L \<ge> 0 then [DigitalWrite L LOW] else []) @
     FbGet #
     (case fb_get io of
        None \<Rightarrow> [Println ''Capture failed'']
      | Some fb \<Rightarrow>
          ReadFileNum ''/camera'' # FileOpen (target_path io w) #
          (if open_ok io
           then [FileWrite (target_path io w) (take (len fb) (buf fb)),
                 FileFlush (target_path io w), FileClose (target_path io w),
                 FbReturn fb, Println (''Saved: '' @ target_path io w)]
           else [Println ''File open failed'', FbReturn fb])) @
     (if L \<ge> 0 then [DigitalWrite L HIGH] else [])"
  by (simp add: takePhoto_def target_path_def Let_def readFileNum_def millis_def
      split: option.splits)

lemma takePhoto_events:
  "new_events w (takePhoto L io w) =
     (if L \<ge> 0 then [DigitalWrite L LOW] else []) @
     FbGet #
     (case fb_get io of
        None \<Rightarrow> [Println ''Capture failed'']
      | Some fb \<Rightarrow>
          ReadFileNum ''/camera'' # FileOpen (target_path io w) #
          (if open_ok io
           then [FileWrite (target_path io w) (take (len fb) (buf fb)),
                 FileFlush (target_path io w), FileClose (target_path io w),
                 FbReturn fb, Println (''Saved: '' @ target_path io w)]
           else [Println ''File open failed'', FbReturn fb])) @
     (if L \<ge> 0 then [DigitalWrite L HIGH] else [])"
  by (rule new_events_append) (rule takePhoto_trace)

lemma takePhoto_dir:
  "dir (takePhoto L io w) =
     (case fb_get io of
        None \<Rightarrow> dir w
      | Some fb \<Rightarrow>
          if open_ok io
          then AList.update (target_path io w) (take (write_n io) (take (len fb) (buf fb)))
                 (AList.update (target_path io w) [] (dir w))
          else dir w)"
  by (simp add: takePhoto_def target_path_def Let_def readFileNum_def millis_def
      split: option.splits)

lemma takePhoto_clock:
  "clock (takePhoto L io w) =
     clock w + t_acquire io +
       (case fb_get io of None \<Rightarrow> 0 | Some fb \<Rightarrow> if open_ok io then t_store io else 0)"
  by (simp add: takePhoto_def Let_def readFileNum_def split: option.splits prod.splits)

lemma takePhoto_statics [simp]:
  "last_st (takePhoto L io w) = last_st w" "edge_st (takePhoto L io w) = edge_st w"
  by (simp_all add: takePhoto_def Let_def readFileNum_def split: option.splits prod.splits)

lemma status_Saved [simp]: "status_of_line (''Saved: '' @ p) = Some (Success p)"
  by (simp add: status_of_line_def)

lemma captureAndStore_status:
  "fst (captureAndStore L io w) =
     [case fb_get io of
        None \<Rightarrow> SensorFault
      | Some fb \<Rightarrow> if open_ok io then Success (target_path io w) else StorageFault]"
  by (simp add: captureAndStore_def Let_def takePhoto_events reports_def List.map_filter_def
      status_of_line_def split: option.splits)

lemma example_answers:
  "fb_get io_good = Some frame_ex" "open_ok io_good"
  "fb_get io_flush_fails = Some frame_ex" "open_ok io_flush_fails" "\<not> flush_ok io_flush_fails"
  "fb_get io_write_fails = Some frame_ex" "open_ok io_write_fails"
  "\<not> flush_ok io_write_fails" "write_n io_write_fails = 0"
  "fb_get io_open_fails = Some frame_ex" "\<not> open_ok io_open_fails"
  "fb_get io_no_frame = None"
  "buf frame_ex = [0xFF, 0xD8, 0xFF, 0xD9]" "len frame_ex = 4"
  by (simp_all add: io_good_def io_flush_fails_def io_write_fails_def io_open_fails_def
      io_no_frame_def frame_ex_def)

lemma path_on_empty_card:
  "target_path io_good (power_on []) = ''/camera/0.jpg''"
  "target_path io_flush_fails (power_on []) = ''/camera/0.jpg''"
  "target_path io_write_fails (power_on []) = ''/camera/0.jpg''"
  "target_path io_open_fails (power_on []) = ''/camera/0.jpg''"
  by code_simp+

subsection \<open>Write, flush, close\<close>

text \<open>
  Claim C1. Whenever \<^verbatim>\<open>takePhoto\<close> gets a frame and opens the file, the calls it makes on
  the file after opening it are exactly: write the whole payload (\<^verbatim>\<open>fb->len\<close> bytes of
  \<^verbatim>\<open>fb->buf\<close>), flush, close, in this order. The answers of \<^verbatim>\<open>write\<close> and
  \<^verbatim>\<open>flush\<close> are arbitrary here, so close is reached also when the flush fails.
\<close>

theorem write_flush_close_order:
  assumes "fb_get io = Some fb" and "open_ok io"
  shows "filter is_file_op (new_events w (takePhoto LED_PIN io w)) =
           [FileWrite (target_path io w) (take (len fb) (buf fb)),
            FileFlush (target_path io w), FileClose (target_path io w)]"
  using assms by (simp add: takePhoto_events)

theorem write_flush_close_order_witness:
  "fb_get io_flush_fails = Some frame_ex \<and> open_ok io_flush_fails \<and> \<not> flush_ok io_flush_fails \<and>
   filter is_file_op (new_events (power_on []) (takePhoto (- 1) io_flush_fails (power_on []))) =
     [FileWrite ''/camera/0.jpg'' [0xFF, 0xD8, 0xFF, 0xD9],
      FileFlush ''/camera/0.jpg'', FileClose ''/camera/0.jpg'']"
  using write_flush_close_order [of io_flush_fails frame_ex "power_on []" "- 1"]
  by (simp add: path_on_empty_card example_answers)

subsection \<open>The frame buffer goes back exactly once\<close>

text \<open>
  Claim C2. Among the calls of one \<^verbatim>\<open>takePhoto\<close>, the releases of a frame buffer are:
  none when the camera gave no frame, and exactly one, of the very frame acquired, when it
  gave one; whether the file opens and whatever \<^verbatim>\<open>write\<close> and \<^verbatim>\<open>flush\<close> answer.
\<close>

theorem frame_released_exactly_once:
  "filter is_release (new_events w (takePhoto LED_PIN io w)) =
     (case fb_get io of None \<Rightarrow> [] | Some fb \<Rightarrow> [FbReturn fb])"
proof (cases "fb_get io")
  case None
  then show ?thesis
    by (simp add: takePhoto_events)
next
  case (Some fb)
  show ?thesis
  proof (cases "open_ok io")
    case True
    with Some show ?thesis by (simp add: takePhoto_events)
  next
    case False
    with Some show ?thesis by (simp add: takePhoto_events)
  qed
qed

subsection \<open>What is reported\<close>

text \<open>
  Claim C4, as the spec states it, fails: \<^verbatim>\<open>takePhoto\<close> never looks at what
  \<^verbatim>\<open>write\<close> and \<^verbatim>\<open>flush\<close> return. With a card that accepts no byte and fails
  to flush, the capture is still reported as saved.
\<close>

theorem failed_write_reported_saved:
  "write_n io_write_fails < len frame_ex \<and> \<not> flush_ok io_write_fails \<and>
   fst (captureAndStore (- 1) io_write_fails (power_on [])) = [Success ''/camera/0.jpg'']"
  by (simp add: captureAndStore_status path_on_empty_card example_answers)

text \<open>
  Claim C4, amended. One call reports exactly one status: \<open>SensorFault\<close> if and only if
  the camera gave no frame; \<open>StorageFault\<close> if and only if a frame was there and the file
  did not open; \<open>Success\<close> with the target path in every other case, whatever
  \<^verbatim>\<open>write\<close> and \<^verbatim>\<open>flush\<close> answer.
\<close>

theorem reported_status:
  "fst (captureAndStore LED_PIN io w) =
     [case fb_get io of
        None \<Rightarrow> SensorFault
      | Some fb \<Rightarrow> if open_ok io then Success (target_path io w) else StorageFault]"
proof -
  have "fst (captureAndStore LED_PIN io w) =
        reports (new_events w (takePhoto LED_PIN io w))"
    by (simp add: captureAndStore_def Let_def)
  also have "\<dots> = [case fb_get io of
                      None \<Rightarrow> SensorFault
                    | Some fb \<Rightarrow> if open_ok io then Success (target_path io w) else StorageFault]"
  proof (cases "fb_get io")
    case None
    then show ?thesis
      by (simp add: takePhoto_events reports_def List.map_filter_def status_of_line_def)
  next
    case (Some fb)
    then show ?thesis
      by (cases "open_ok io")
         (simp_all add: takePhoto_events reports_def List.map_filter_def status_of_line_def)
  qed
  finally show ?thesis .
qed

subsection \<open>No frame, no further action\<close>

text \<open>
  Claim C7. When the camera gives no frame, \<^verbatim>\<open>takePhoto\<close> asks for the frame, prints
  the failure and drives the indicator (if there is one) low before and high, that is idle,
  after; it makes no call on the card, the directory is as before, and the status is
  \<open>SensorFault\<close>.
\<close>

theorem no_frame_no_storage:
  assumes "fb_get io = None"
  shows "new_events w (takePhoto LED_PIN io w) =
           (if LED_PIN \<ge> 0 then [DigitalWrite LED_PIN LOW] else []) @
           [FbGet, Println ''Capture failed''] @
           (if LED_PIN \<ge> 0 then [DigitalWrite LED_PIN HIGH] else []) \<and>
         dir (takePhoto LED_PIN io w) = dir w \<and>
         fst (captureAndStore LED_PIN io w) = [SensorFault]"
  using assms by (simp add: takePhoto_events takePhoto_dir captureAndStore_status)

theorem no_frame_no_storage_witness:
  "fb_get io_no_frame = None \<and>
   new_events (power_on []) (takePhoto 2 io_no_frame (power_on [])) =
     [DigitalWrite 2 LOW, FbGet, Println ''Capture failed'', DigitalWrite 2 HIGH] \<and>
   dir (takePhoto 2 io_no_frame (power_on [])) = [] \<and>
   fst (captureAndStore 2 io_no_frame (power_on [])) = [SensorFault]"
  using no_frame_no_storage [of io_no_frame "power_on []" 2]
  by (simp add: example_answers power_on_def)

subsection \<open>Close before release\<close>

text \<open>
  Claim C9. On the path where the file opens, the calls of \<^verbatim>\<open>takePhoto\<close> are, in order:
  the frame request, the count query, open, write, flush, close, and only then the release of
  the frame buffer, followed by the printed line (the indicator writes come first and last).
\<close>

theorem close_before_release:
  assumes "fb_get io = Some fb" and "open_ok io"
  shows "new_events w (takePhoto LED_PIN io w) =
           (if LED_PIN \<ge> 0 then [DigitalWrite LED_PIN LOW] else []) @
           [FbGet, ReadFileNum ''/camera'', FileOpen (target_path io w),
            FileWrite (target_path io w) (take (len fb) (buf fb)),
            FileFlush (target_path io w), FileClose (target_path io w),
            FbReturn fb, Println (''Saved: '' @ target_path io w)] @
           (if LED_PIN \<ge> 0 then [DigitalWrite LED_PIN HIGH] else [])"
  using assms by (simp add: takePhoto_events)

theorem close_before_release_witness:
  "fb_get io_good = Some frame_ex \<and> open_ok io_good \<and>
   new_events (power_on []) (takePhoto (- 1) io_good (power_on [])) =
     [FbGet, ReadFileNum ''/camera'', FileOpen ''/camera/0.jpg'',
      FileWrite ''/camera/0.jpg'' [0xFF, 0xD8, 0xFF, 0xD9],
      FileFlush ''/camera/0.jpg'', FileClose ''/camera/0.jpg'',
      FbReturn frame_ex, Println ''Saved: /camera/0.jpg'']"
  using close_before_release [of io_good frame_ex "power_on []" "- 1"]
  by (simp add: path_on_empty_card example_answers)

subsection \<open>The indicator does not interfere\<close>

text \<open>
  Claim C10. For the same world and the same answers of camera and card, two values of
  \<^verbatim>\<open>LED_PIN\<close> (an indicator line or none) give the same status, the same directory
  (paths and contents), the same clock, and the same calls apart from the writes to the
  indicator line. A write to the indicator line is taken to cost no clock time.
\<close>

theorem indicator_does_not_interfere:
  "fst (captureAndStore L1 io w) = fst (captureAndStore L2 io w) \<and>
   dir (snd (captureAndStore L1 io w)) = dir (snd (captureAndStore L2 io w)) \<and>
   clock (snd (captureAndStore L1 io w)) = clock (snd (captureAndStore L2 io w)) \<and>
   filter (\<lambda>ev. \<not> is_led_write ev) (new_events w (snd (captureAndStore L1 io w))) =
   filter (\<lambda>ev. \<not> is_led_write ev) (new_events w (snd (captureAndStore L2 io w)))"
  by (simp add: captureAndStore_status)
     (simp add: captureAndStore_def Let_def takePhoto_dir takePhoto_clock takePhoto_events
       split: option.splits)


section \<open>The wait for release and the poll loop\<close>

declare wait_release.simps [simp del]

lemma elapsed_unat:
  assumes "c0 \<le> c" and "c - c0 < 2 ^ 32"
  shows "unat (of_nat c - of_nat c0 :: uint32) = c - c0"
proof -
  have "(of_nat c - of_nat c0 :: uint32) = of_nat (c - c0)"
    using assms(1) by simp
  then show ?thesis
    using assms(2) by (simp add: unat_of_nat)
qed

lemma elapsed_gt:
  assumes "c0 \<le> c" and "c - c0 < 2 ^ 32" and "k < 2 ^ 32"
  shows "(of_nat k < (of_nat c - of_nat c0 :: uint32)) = (k < c - c0)"
  using assms by (simp add: word_less_nat_alt elapsed_unat unat_of_nat)

text \<open>The four ways through \<^verbatim>\<open>loop\<close>.\<close>

lemma loop_high:
  "pin e (clock w) \<Longrightarrow> loop L e w = last_st_update (\<lambda>_. HIGH) w"
  by (simp add: loop_def Let_def)

lemma loop_edge:
  "\<not> pin e (clock w) \<Longrightarrow> last_st w \<Longrightarrow>
   loop L e w = last_st_update (\<lambda>_. LOW) (edge_st_update (\<lambda>_. millis w) w)"
  by (simp add: loop_def Let_def)

lemma loop_hold:
  "\<not> pin e (clock w) \<Longrightarrow> \<not> last_st w \<Longrightarrow> \<not> of_nat DEBOUNCE_MS < millis w - edge_st w \<Longrightarrow>
   loop L e w = last_st_update (\<lambda>_. LOW) w"
  by (simp add: loop_def Let_def)

lemma loop_fire:
  "\<not> pin e (clock w) \<Longrightarrow> \<not> last_st w \<Longrightarrow> of_nat DEBOUNCE_MS < millis w - edge_st w \<Longrightarrow>
   loop L e w =
     last_st_update (\<lambda>_. LOW)
       (delay DEBOUNCE_MS
         (wait_release e (millis (takePhoto L (shot e (clock w)) w))
           (takePhoto L (shot e (clock w)) w)))"
  by (simp add: loop_def Let_def)

lemma activations_simps [simp]:
  "activations (last_st_update f w) = activations w"
  "activations (edge_st_update g w) = activations w"
  "activations (delay n w) = activations w"
  by (simp_all add: activations_def)

lemma activations_takePhoto [simp]:
  "activations (takePhoto L io w) = Suc (activations w)"
  by (simp add: activations_def takePhoto_trace split: option.splits)
lemma wait_release_waited:
  assumes "c0 \<le> clock w" and "clock w \<le> c0 + 2005"
  shows "waited e c0 w (wait_release e (of_nat c0) w)"
  using assms
proof (induction e "of_nat c0 :: uint32" w rule: wait_release.induct)
  case (1 e w)
  have el: "(2000 < millis (emit WdtReset w) - of_nat c0) = (2000 < clock w - c0)"
    using elapsed_gt [of c0 "clock w" 2000] "1.prems" by (simp add: millis_def)
  show ?case
  proof (cases "pin e (clock w)")
    case True
    then show ?thesis
      using "1.prems" by (subst wait_release.simps) (simp add: waited_def)
  next
    case low: False
    show ?thesis
    proof (cases "2000 < clock w - c0")
      case True
      have "wait_release e (of_nat c0) w = emit WdtReset w"
        by (subst wait_release.simps) (simp add: low el True Let_def)
      moreover have "trace w @ [WdtReset] = trace w @ replicate 1 WdtReset"
        by simp
      ultimately show ?thesis
        using low True "1.prems" unfolding waited_def
        by (auto intro!: exI [of _ 1])
    next
      case False
      let ?w2 = "delay 5 (emit WdtReset w)"
      have step: "wait_release e (of_nat c0) w = wait_release e (of_nat c0) ?w2"
        by (subst wait_release.simps) (simp add: low el False Let_def)
      have "waited e c0 ?w2 (wait_release e (of_nat c0) ?w2)"
        using "1.hyps" [OF _ refl] low el False "1.prems" by simp
      then obtain n where
        n: "trace (wait_release e (of_nat c0) ?w2) = trace ?w2 @ replicate n WdtReset"
           "5 * n = clock (wait_release e (of_nat c0) ?w2) - clock ?w2 +
                    (if pin e (clock (wait_release e (of_nat c0) ?w2)) then 0 else 5)"
        and rest: "clock ?w2 \<le> clock (wait_release e (of_nat c0) ?w2)"
          "clock (wait_release e (of_nat c0) ?w2) \<le> c0 + 2005"
          "dir (wait_release e (of_nat c0) ?w2) = dir ?w2"
          "last_st (wait_release e (of_nat c0) ?w2) = last_st ?w2"
          "edge_st (wait_release e (of_nat c0) ?w2) = edge_st ?w2"
          "pin e (clock (wait_release e (of_nat c0) ?w2)) \<or>
             c0 + 2000 < clock (wait_release e (of_nat c0) ?w2)"
        unfolding waited_def by blast
      have "trace (wait_release e (of_nat c0) ?w2) = trace w @ replicate (Suc n) WdtReset"
        using n(1) by simp
      moreover have "5 * Suc n = clock (wait_release e (of_nat c0) ?w2) - clock w +
                    (if pin e (clock (wait_release e (of_nat c0) ?w2)) then 0 else 5)"
        using n(2) rest(1) by (simp split: if_splits)
      ultimately show ?thesis
        unfolding waited_def step using rest by (auto simp del: replicate_Suc)
    qed
  qed
qed

lemma wait_release_activations:
  assumes "waited e c0 w w'" shows "activations w' = activations w"
  using assms by (auto simp: waited_def activations_def)

lemma wait_release_stuck:
  assumes "\<forall>t. clock w \<le> t \<and> t \<le> clock w + 2005 \<longrightarrow> \<not> pin e t"
  shows "clock (wait_release e (millis w) w) = clock w + 2005"
    and "trace (wait_release e (millis w) w) = trace w @ replicate 402 WdtReset"
proof -
  let ?w' = "wait_release e (millis w) w"
  have wt: "waited e (clock w) w ?w'"
    unfolding millis_def by (rule wait_release_waited) simp_all
  then have rng: "clock w \<le> clock ?w'" "clock ?w' \<le> clock w + 2005"
    by (simp_all add: waited_def)
  with assms have low: "\<not> pin e (clock ?w')"
    by blast
  with wt obtain n where n: "trace ?w' = trace w @ replicate n WdtReset"
      "5 * n = clock ?w' - clock w + 5" and late: "clock w + 2000 < clock ?w'"
    by (auto simp: waited_def)
  from n(2) rng late show "clock ?w' = clock w + 2005"
    by presburger
  with n(2) have "n = 402" by simp
  with n(1) show "trace ?w' = trace w @ replicate 402 WdtReset"
    by simp
qed

lemma loop_fire_waited:
  assumes "\<not> pin e (clock w)" and "\<not> last_st w" and "of_nat DEBOUNCE_MS < millis w - edge_st w"
  shows "\<exists>w4. waited e (clock (takePhoto L (shot e (clock w)) w)) (takePhoto L (shot e (clock w)) w) w4 \<and>
              loop L e w = last_st_update (\<lambda>_. LOW) (delay DEBOUNCE_MS w4)"
proof -
  let ?w3 = "takePhoto L (shot e (clock w)) w"
  have "waited e (clock ?w3) ?w3 (wait_release e (millis ?w3) ?w3)"
    unfolding millis_def by (rule wait_release_waited) simp_all
  then show ?thesis
    using loop_fire [OF assms] by blast
qed

lemma loop_clock_bound:
  "clock (loop L e w) \<le> clock (takePhoto L (shot e (clock w)) w) + 2005 + DEBOUNCE_MS"
proof -
  have c3: "clock w \<le> clock (takePhoto L (shot e (clock w)) w)"
    by (simp add: takePhoto_clock)
  consider (high) "pin e (clock w)" | (edge) "\<not> pin e (clock w)" "last_st w"
    | (hold) "\<not> pin e (clock w)" "\<not> last_st w" "\<not> of_nat DEBOUNCE_MS < millis w - edge_st w"
    | (fire) "\<not> pin e (clock w)" "\<not> last_st w" "of_nat DEBOUNCE_MS < millis w - edge_st w"
    by blast
  then show ?thesis
  proof cases
    case high
    with c3 show ?thesis by (simp add: loop_high)
  next
    case edge
    with c3 show ?thesis by (simp add: loop_edge)
  next
    case hold
    with c3 show ?thesis by (simp add: loop_hold)
  next
    case fire
    from loop_fire_waited [OF fire, of L] show ?thesis
      by (auto simp: waited_def)
  qed
qed

lemma clock_loop_mono: "clock w \<le> clock (loop L e w)"
proof -
  consider (high) "pin e (clock w)" | (edge) "\<not> pin e (clock w)" "last_st w"
    | (hold) "\<not> pin e (clock w)" "\<not> last_st w" "\<not> of_nat DEBOUNCE_MS < millis w - edge_st w"
    | (fire) "\<not> pin e (clock w)" "\<not> last_st w" "of_nat DEBOUNCE_MS < millis w - edge_st w"
    by blast
  then show ?thesis
  proof cases
    case fire
    from loop_fire_waited [OF fire, of L] show ?thesis
      by (auto simp: waited_def takePhoto_clock)
  qed (simp_all add: loop_high loop_edge loop_hold)
qed

lemma clock_run_mono: "clock w \<le> clock (run L e gs w)"
proof (induction gs arbitrary: w)
  case Nil
  show ?case by simp
next
  case (Cons g gs)
  have "clock w \<le> clock (delay g w)" by simp
  also have "\<dots> \<le> clock (loop L e (delay g w))" by (rule clock_loop_mono)
  also have "\<dots> \<le> clock (run L e gs (loop L e (delay g w)))" by (rule Cons.IH)
  finally show ?case by simp
qed

lemma env_stuck_pin [simp]: "pin env_stuck t = LOW"
  by (simp add: env_stuck_def)

lemma loop_fire_activations:
  assumes "\<not> pin e (clock w)" and "\<not> last_st w" and "of_nat DEBOUNCE_MS < millis w - edge_st w"
  shows "activations (loop L e w) = Suc (activations w)"
proof -
  from loop_fire_waited [OF assms, of L] obtain w4 where
    "waited e (clock (takePhoto L (shot e (clock w)) w)) (takePhoto L (shot e (clock w)) w) w4"
    "loop L e w = last_st_update (\<lambda>_. LOW) (delay DEBOUNCE_MS w4)"
    by blast
  then show ?thesis
    using wait_release_activations [of e _ "takePhoto L (shot e (clock w)) w" w4] by simp
qed

lemma run_released:
  assumes "\<forall>t. clock w \<le> t \<and> t \<le> T \<longrightarrow> pin e t" and "clock (run L e gs w) \<le> T"
  shows "activations (run L e gs w) = activations w"
  using assms
proof (induction gs arbitrary: w)
  case Nil
  then show ?case by simp
next
  case (Cons g gs)
  let ?w = "delay g w"
  have "clock ?w \<le> clock (loop L e ?w)"
    by (rule clock_loop_mono)
  also have "\<dots> \<le> clock (run L e gs (loop L e ?w))"
    by (rule clock_run_mono)
  finally have le: "clock w + g \<le> T"
    using Cons.prems(2) by simp
  with Cons.prems(1) have hi: "pin e (clock ?w)"
    by simp
  have "\<forall>t. clock (loop L e ?w) \<le> t \<and> t \<le> T \<longrightarrow> pin e t"
    using Cons.prems(1) by (simp add: loop_high [OF hi])
  moreover have "clock (run L e gs (loop L e ?w)) \<le> T"
    using Cons.prems(2) by simp
  ultimately have "activations (run L e gs (loop L e ?w)) = activations (loop L e ?w)"
    by (rule Cons.IH)
  then show ?case
    by (simp add: loop_high [OF hi])
qed

lemma fire_then_released:
  assumes sp: "single_press e a b c T" and hold: "b \<le> a + 2000"
    and c: "c \<le> clock w" and fin: "clock (loop L e w) \<le> T"
    and low: "\<not> pin e (clock w)" and last: "\<not> last_st w"
    and gt: "of_nat DEBOUNCE_MS < millis w - edge_st w"
  shows "activations (loop L e w) = Suc (activations w) \<and> b \<le> clock (loop L e w)"
proof -
  let ?w3 = "takePhoto L (shot e (clock w)) w"
  from loop_fire_waited [OF low last gt, of L] obtain w4 where
    wt: "waited e (clock ?w3) ?w3 w4"
    and l: "loop L e w = last_st_update (\<lambda>_. LOW) (delay DEBOUNCE_MS w4)"
    by blast
  have c3: "clock w \<le> clock ?w3"
    by (simp add: takePhoto_clock)
  have c4: "clock ?w3 \<le> clock w4" "clock w4 \<le> T"
    using wt fin by (simp_all add: waited_def l)
  have a: "a \<le> clock w" "clock w < b"
    using sp low c c3 c4 by (auto simp: single_press_def)
  have in4: "c \<le> clock w4"
    using c c3 c4 by simp
  have "pin e (clock w4)"
  proof (rule ccontr)
    assume "\<not> pin e (clock w4)"
    then have "clock w4 < b" "clock ?w3 + 2000 < clock w4"
      using sp wt in4 c4 by (auto simp: single_press_def waited_def)
    with a c3 hold show False by arith
  qed
  with sp in4 c4 a c3 have "b \<le> clock w4"
    by (auto simp: single_press_def)
  moreover have "activations w4 = Suc (activations w)"
    using wait_release_activations [OF wt] by simp
  ultimately show ?thesis
    by (simp add: l)
qed

lemma run_held:
  assumes sp: "single_press e a b c T" and hold: "b \<le> a + 2000"
    and "clock (run L e gs w) \<le> T" and "c \<le> clock w"
    and "\<not> last_st w" and "edge_st w = of_nat s" and "a \<le> s" and "s \<le> clock w"
  shows "activations (run L e gs w) = activations w + (if fires_held s b (clock w) gs then 1 else 0)"
  using assms(3-)
proof (induction gs arbitrary: w)
  case Nil
  then show ?case by simp
next
  case (Cons g gs)
  let ?w = "delay g w"
  let ?w' = "loop L e ?w"
  have fin: "clock (run L e gs ?w') \<le> T"
    using Cons.prems(1) by simp
  have "clock ?w \<le> clock ?w'"
    by (rule clock_loop_mono)
  moreover have "clock ?w' \<le> clock (run L e gs ?w')"
    by (rule clock_run_mono)
  ultimately have le: "clock w + g \<le> T" "clock ?w' \<le> T"
    using fin by simp_all
  have inside: "c \<le> clock w + g"
    using Cons.prems(2) by simp
  show ?case
  proof (cases "b \<le> clock w + g")
    case True
    then have hi: "pin e (clock ?w)"
      using sp le inside by (simp add: single_press_def)
    have "\<forall>t. clock ?w' \<le> t \<and> t \<le> T \<longrightarrow> pin e t"
      using sp True inside by (simp add: loop_high [OF hi] single_press_def)
    from run_released [OF this fin] show ?thesis
      using True by (simp add: loop_high [OF hi])
  next
    case False
    then have low: "\<not> pin e (clock ?w)"
      using sp le inside Cons.prems by (simp add: single_press_def)
    have last: "\<not> last_st ?w"
      using Cons.prems by simp
    have el: "(of_nat DEBOUNCE_MS < millis ?w - edge_st ?w) = (DEBOUNCE_MS < clock w + g - s)"
      using elapsed_gt [of s "clock w + g" DEBOUNCE_MS] Cons.prems False hold
      by (simp add: millis_def DEBOUNCE_MS_def)
    show ?thesis
    proof (cases "DEBOUNCE_MS < clock w + g - s")
      case True
      with el have gt: "of_nat DEBOUNCE_MS < millis ?w - edge_st ?w"
        by simp
      have "c \<le> clock ?w"
        using inside by simp
      from fire_then_released [OF sp hold this le(2) low last gt]
      have f: "activations ?w' = Suc (activations w)" "b \<le> clock ?w'"
        by simp_all
      have "c \<le> clock ?w'"
        using inside clock_loop_mono [of ?w L e] by simp
      with sp f(2) have "\<forall>t. clock ?w' \<le> t \<and> t \<le> T \<longrightarrow> pin e t"
        by (simp add: single_press_def)
      from run_released [OF this fin] show ?thesis
        using f(1) True False by simp
    next
      case nf: False
      with el have ngt: "\<not> of_nat DEBOUNCE_MS < millis ?w - edge_st ?w"
        by simp
      have "activations (run L e gs ?w') =
            activations ?w' + (if fires_held s b (clock ?w') gs then 1 else 0)"
        by (rule Cons.IH)
           (use Cons.prems fin inside in \<open>simp_all add: loop_hold [OF low last ngt]\<close>)
      then show ?thesis
        using nf False by (simp add: loop_hold [OF low last ngt])
    qed
  qed
qed

lemma run_idle:
  assumes sp: "single_press e a b c T" and hold: "b \<le> a + 2000"
    and "clock (run L e gs w) \<le> T" and "c \<le> clock w" and "last_st w"
  shows "activations (run L e gs w) = activations w + (if press_fires a b (clock w) gs then 1 else 0)"
  using assms(3-)
proof (induction gs arbitrary: w)
  case Nil
  then show ?case by simp
next
  case (Cons g gs)
  let ?w = "delay g w"
  let ?w' = "loop L e ?w"
  have fin: "clock (run L e gs ?w') \<le> T"
    using Cons.prems(1) by simp
  have "clock ?w \<le> clock ?w'"
    by (rule clock_loop_mono)
  moreover have "clock ?w' \<le> clock (run L e gs ?w')"
    by (rule clock_run_mono)
  ultimately have le: "clock w + g \<le> T"
    using fin by simp
  have inside: "c \<le> clock w + g"
    using Cons.prems(2) by simp
  consider (before) "clock w + g < a" | (after) "a \<le> clock w + g" "b \<le> clock w + g"
    | (during) "a \<le> clock w + g" "clock w + g < b"
    by linarith
  then show ?case
  proof cases
    case before
    then have hi: "pin e (clock ?w)"
      using sp le inside by (simp add: single_press_def)
    have "activations (run L e gs ?w') =
          activations ?w' + (if press_fires a b (clock ?w') gs then 1 else 0)"
      by (rule Cons.IH) (use fin inside in \<open>simp_all add: loop_high [OF hi]\<close>)
    then show ?thesis
      using before by (simp add: loop_high [OF hi])
  next
    case after
    then have hi: "pin e (clock ?w)"
      using sp le inside by (simp add: single_press_def)
    have "\<forall>t. clock ?w' \<le> t \<and> t \<le> T \<longrightarrow> pin e t"
      using sp after inside by (simp add: loop_high [OF hi] single_press_def)
    from run_released [OF this fin] show ?thesis
      using after by (simp add: loop_high [OF hi])
  next
    case during
    then have low: "\<not> pin e (clock ?w)"
      using sp le inside by (simp add: single_press_def)
    have last: "last_st ?w"
      using Cons.prems by simp
    have "activations (run L e gs ?w') =
          activations ?w' + (if fires_held (clock w + g) b (clock ?w') gs then 1 else 0)"
      by (rule run_held [OF sp hold])
         (use during fin inside in \<open>simp_all add: loop_edge [OF low last] millis_def\<close>)
    then show ?thesis
      using during by (simp add: loop_edge [OF low last])
  qed
qed

lemma fires_held_short:
  "b \<le> s + DEBOUNCE_MS + 1 \<Longrightarrow> \<not> fires_held s b c gs"
  by (induction gs arbitrary: c) auto

lemma press_fires_short:
  "b \<le> a + DEBOUNCE_MS + 1 \<Longrightarrow> \<not> press_fires a b c gs"
  by (induction gs arbitrary: c) (auto simp: fires_held_short)

lemma fires_held_long:
  assumes "\<forall>g\<in>set gs. g \<le> G" and "s + DEBOUNCE_MS + G < b"
    and "s \<le> c" and "c \<le> s + DEBOUNCE_MS" and "s + DEBOUNCE_MS < c + sum_list gs"
  shows "fires_held s b c gs"
  using assms
proof (induction gs arbitrary: c)
  case Nil
  then show ?case by simp
next
  case (Cons g gs)
  have g: "g \<le> G" using Cons.prems(1) by simp
  show ?case
  proof (cases "DEBOUNCE_MS < c + g - s")
    case True
    with g Cons.prems show ?thesis by simp
  next
    case False
    have "fires_held s b (c + g) gs"
      by (rule Cons.IH) (use False Cons.prems in \<open>simp_all add: add.assoc\<close>)
    with g False Cons.prems show ?thesis by simp
  qed
qed

lemma press_fires_long:
  assumes "\<forall>g\<in>set gs. g \<le> G" and "a + 2 * G + DEBOUNCE_MS < b"
    and "c \<le> a" and "b \<le> c + sum_list gs"
  shows "press_fires a b c gs"
  using assms
proof (induction gs arbitrary: c)
  case Nil
  then show ?case by simp
next
  case (Cons g gs)
  have g: "g \<le> G" using Cons.prems(1) by simp
  show ?case
  proof (cases "c + g < a")
    case True
    have "press_fires a b (c + g) gs"
      by (rule Cons.IH) (use True Cons.prems in \<open>simp_all add: add.assoc\<close>)
    with True show ?thesis by simp
  next
    case False
    have "fires_held (c + g) b (c + g) gs"
      by (rule fires_held_long [where G = G]) (use False g Cons.prems in \<open>simp_all add: add.assoc\<close>)
    with False g Cons.prems show ?thesis by simp
  qed
qed

lemma button_env_single [simp]: "single_press (button_env [(a, b)] io) a b c T"
  by (auto simp: single_press_def button_env_def)

lemma power_on_sel [simp]:
  "clock (power_on d) = 0" "dir (power_on d) = d" "trace (power_on d) = []"
  "last_st (power_on d) = HIGH" "edge_st (power_on d) = 0"
  by (simp_all add: power_on_def)

lemma activations_power_on [simp]: "activations (power_on d) = 0"
  by (simp add: activations_def)


lemma example_times: "t_acquire io_good = 30" "t_store io_good = 50"
  by (simp_all add: io_good_def)

lemma held_long_fires_twice:
  "activations (run (- 1) (button_env [(10, 2200)] io_good) [10, 50, 1] (power_on [])) = 2"
proof -
  let ?e = "button_env [(10, 2200)] io_good"
  have pin: "pin ?e t = (t < 10 \<or> 2200 \<le> t)" for t
    by (auto simp: button_env_def)
  have shot: "shot ?e t = io_good" for t
    by (simp add: button_env_def)
  let ?w1 = "loop (- 1) ?e (delay 10 (power_on []))"
  have "?w1 = last_st_update (\<lambda>_. LOW)
                (edge_st_update (\<lambda>_. millis (delay 10 (power_on []))) (delay 10 (power_on [])))"
    by (rule loop_edge) (simp_all add: pin)
  then have f1: "clock ?w1 = 10" "\<not> last_st ?w1" "edge_st ?w1 = of_nat 10" "activations ?w1 = 0"
    by (simp_all add: millis_def)
  let ?v = "delay 50 ?w1"
  let ?w3 = "takePhoto (- 1) io_good ?v"
  have low2: "\<not> pin ?e (clock ?v)" and last2: "\<not> last_st ?v"
    by (simp_all add: pin f1)
  have gt2: "of_nat DEBOUNCE_MS < millis ?v - edge_st ?v"
    using elapsed_gt [of 10 60 DEBOUNCE_MS] by (simp add: millis_def f1 DEBOUNCE_MS_def)
  have c3: "clock ?w3 = 140"
    by (simp add: takePhoto_clock example_answers example_times f1)
  from loop_fire_waited [OF low2 last2 gt2, of "- 1", unfolded shot] obtain w4 where
    wt: "waited ?e (clock ?w3) ?w3 w4"
    and w2: "loop (- 1) ?e ?v = last_st_update (\<lambda>_. LOW) (delay DEBOUNCE_MS w4)"
    by blast
  let ?w2 = "loop (- 1) ?e ?v"
  from wt have r4: "140 \<le> clock w4" "clock w4 \<le> 2145" "edge_st w4 = of_nat 10"
    and late: "pin ?e (clock w4) \<or> 2140 < clock w4"
    by (simp_all add: waited_def c3 f1)
  from late r4 have "2140 < clock w4"
    by (auto simp: pin)
  with r4 have f2: "2180 < clock ?w2" "clock ?w2 \<le> 2185" "\<not> last_st ?w2" "edge_st ?w2 = of_nat 10"
    by (simp_all add: w2 DEBOUNCE_MS_def)
  have a2: "activations ?w2 = 1"
    using loop_fire_activations [OF low2 last2 gt2, of "- 1"] f1 by simp
  let ?u = "delay 1 ?w2"
  have low3: "\<not> pin ?e (clock ?u)" and last3: "\<not> last_st ?u"
    using f2 by (simp_all add: pin)
  have gt3: "of_nat DEBOUNCE_MS < millis ?u - edge_st ?u"
    using elapsed_gt [of 10 "clock ?w2 + 1" DEBOUNCE_MS] f2 by (simp add: millis_def DEBOUNCE_MS_def)
  have "activations (loop (- 1) ?e ?u) = 2"
    using loop_fire_activations [OF low3 last3 gt3, of "- 1"] a2 by simp
  then show ?thesis
    by simp
qed

lemma first_of_two_presses:
  "single_press (button_env [(10, 200), (5000, 5100)] io_good) 10 200 0 4999"
  by (auto simp: single_press_def button_env_def)

lemma first_of_two_presses_clock:
  "clock (run (- 1) (button_env [(10, 200), (5000, 5100)] io_good) [10, 50, 50, 50, 50]
     (power_on [])) = 390"
  by code_simp

subsection \<open>One press, one activation\<close>

text \<open>
  Claim C3, as the spec states it, fails on three counts, all with a camera and a card that
  work. A press of 41 units, polled every unit (first low poll at 10, last at 50), fires
  nothing, because the test is "more than \<^verbatim>\<open>DEBOUNCE_MS\<close>", not "at least". A press held
  from 10 to 2200 fires twice: the wait for release gives up after 2005 units and the next
  poll finds the line low with the old edge time. And after a release seen only by the wait
  for release, a second press of 25 units (170 to 195) fires at its first poll: two presses,
  two activations, though the second is shorter than the window.
\<close>

theorem debounce_violations:
  "activations (run (- 1) (button_env [(10, 51)] io_good) (replicate 100 1) (power_on [])) = 0 \<and>
   activations (run (- 1) (button_env [(10, 2200)] io_good) [10, 50, 1] (power_on [])) = 2 \<and>
   activations (run (- 1) (button_env [(10, 100), (170, 195)] io_good) [10, 50, 1, 30] (power_on [])) = 2"
proof -
  let ?run = "run (- 1) (button_env [(10, 51)] io_good) (replicate 100 1) (power_on [])"
  have "activations ?run = 0"
    using run_idle [of "button_env [(10, 51)] io_good" 10 51 0 "clock ?run" "- 1"
        "replicate 100 1" "power_on []"]
      press_fires_short [of 51 10 0 "replicate 100 1"]
    by (simp add: DEBOUNCE_MS_def)
  moreover have "activations (run (- 1) (button_env [(10, 100), (170, 195)] io_good) [10, 50, 1, 30] (power_on [])) = 2"
    by code_simp
  ultimately show ?thesis
    using held_long_fires_twice by simp
qed

text \<open>
  Claim C3, amended. Take a stretch of the session, from a world \<open>w\<close> whose last poll saw
  the line high up to time \<open>T\<close>, during which the line is low exactly from \<open>a\<close> up to
  \<open>b\<close>: one discrete press, of at most 2000 units. Then, for every poll schedule that
  stays within the stretch: at most one activation fires; none fires when the press ends
  within \<^verbatim>\<open>DEBOUNCE_MS\<close> units of its beginning (\<open>b \<le> a + 41\<close>), since a poll must see the
  line low strictly more than 40 units after the first low poll; and exactly one fires when
  the polls come at most \<open>G\<close> units apart, start before the press, go on until its end, and
  the press is longer than \<open>2 * G + 40\<close> units.
\<close>

theorem debounce_single_press:
  assumes "single_press e a b (clock w) T" and "clock (run LED_PIN e gs w) \<le> T"
    and "b \<le> a + 2000" and "last_st w = HIGH"
  shows "activations (run LED_PIN e gs w) \<le> activations w + 1 \<and>
         (b \<le> a + DEBOUNCE_MS + 1 \<longrightarrow> activations (run LED_PIN e gs w) = activations w) \<and>
         (clock w \<le> a \<and> (\<forall>g\<in>set gs. g \<le> G) \<and> a + 2 * G + DEBOUNCE_MS < b \<and>
          b \<le> clock w + sum_list gs \<longrightarrow>
            activations (run LED_PIN e gs w) = activations w + 1)"
proof -
  have eq: "activations (run LED_PIN e gs w) =
            activations w + (if press_fires a b (clock w) gs then 1 else 0)"
    using assms by (intro run_idle [where c = "clock w" and T = T]) simp_all
  show ?thesis
    unfolding eq by (auto simp: press_fires_short press_fires_long)
qed

theorem debounce_single_press_witness:
  "single_press (button_env [(10, 200), (5000, 5100)] io_good) 10 200 0 4999 \<and>
   activations (run (- 1) (button_env [(10, 200), (5000, 5100)] io_good) [10, 50, 50, 50, 50]
     (power_on [])) = 1 \<and>
   activations (run (- 1) (button_env [(10, 40)] io_good) [10, 50, 50, 50, 50] (power_on [])) = 0"
  using debounce_single_press [of "button_env [(10, 200), (5000, 5100)] io_good" 10 200
          "power_on []" 4999 "- 1" "[10, 50, 50, 50, 50]" 50]
        debounce_single_press [of "button_env [(10, 40)] io_good" 10 40 "power_on []"
          "clock (run (- 1) (button_env [(10, 40)] io_good) [10, 50, 50, 50, 50] (power_on []))"
          "- 1" "[10, 50, 50, 50, 50]" 50]
  by (simp add: DEBOUNCE_MS_def first_of_two_presses first_of_two_presses_clock del: run.simps)

subsection \<open>The wait for release is bounded\<close>

text \<open>
  Claim C6, as the spec states it, fails: the wait is left only once more than 2000 units
  have passed, and it looks every 5 units. With a line that stays low, a capture that
  returns at time 80 is followed by a wait that ends at 2085, that is 2005 units later.
\<close>

theorem stuck_line_waits_2005:
  "clock (takePhoto (- 1) io_good (power_on [])) = 80 \<and>
   clock (wait_release env_stuck (millis (takePhoto (- 1) io_good (power_on [])))
            (takePhoto (- 1) io_good (power_on []))) = 2085"
  by (simp add: wait_release_stuck takePhoto_clock example_answers io_good_def)


text \<open>
  Claim C6, amended. The wait for release always ends (\<open>wait_release\<close> is a total
  function), at most 2005 units after it began. What it adds to the trace is watchdog
  resets only, one in every round: as many as 5-unit steps were waited, plus one when the
  wait timed out. It ends on a released line or after more than 2000 units. On a line that
  stays low for 2005 units it ends after exactly 2005 units and 402 resets. So polling
  resumes at most \<open>2005 + DEBOUNCE_MS\<close> units after \<^verbatim>\<open>takePhoto\<close> returned. Only
  \<^verbatim>\<open>delay\<close> and the collaborators are counted as taking time.
\<close>

theorem wait_for_release_bounded:
  "clock w \<le> clock (wait_release e (millis w) w) \<and>
   clock (wait_release e (millis w) w) \<le> clock w + 2005 \<and>
   new_events w (wait_release e (millis w) w) =
     replicate (length (new_events w (wait_release e (millis w) w))) WdtReset \<and>
   5 * length (new_events w (wait_release e (millis w) w)) =
     clock (wait_release e (millis w) w) - clock w +
       (if pin e (clock (wait_release e (millis w) w)) then 0 else 5) \<and>
   (pin e (clock (wait_release e (millis w) w)) \<or>
    clock w + 2000 < clock (wait_release e (millis w) w)) \<and>
   ((\<forall>t. clock w \<le> t \<and> t \<le> clock w + 2005 \<longrightarrow> \<not> pin e t) \<longrightarrow>
      clock (wait_release e (millis w) w) = clock w + 2005 \<and>
      length (new_events w (wait_release e (millis w) w)) = 402) \<and>
   clock (loop LED_PIN e w) \<le> clock (takePhoto LED_PIN (shot e (clock w)) w) + 2005 + DEBOUNCE_MS"
proof -
  let ?w' = "wait_release e (millis w) w"
  have wt: "waited e (clock w) w ?w'"
    unfolding millis_def by (rule wait_release_waited) simp_all
  then obtain n where n: "trace ?w' = trace w @ replicate n WdtReset"
      "5 * n = clock ?w' - clock w + (if pin e (clock ?w') then 0 else 5)"
    by (auto simp: waited_def)
  have ev: "new_events w ?w' = replicate n WdtReset"
    by (rule new_events_append) (rule n(1))
  have "(\<forall>t. clock w \<le> t \<and> t \<le> clock w + 2005 \<longrightarrow> \<not> pin e t) \<longrightarrow>
      clock ?w' = clock w + 2005 \<and> length (new_events w ?w') = 402"
    using wait_release_stuck [of w e] by (simp add: new_events_append)
  then show ?thesis
    using wt n(2) loop_clock_bound [of L e w for L] unfolding ev
    by (simp add: waited_def)
qed


theorem wait_for_release_bounded_witness:
  "pin env_stuck 0 = LOW \<and> pin env_stuck 2005 = LOW \<and>
   clock (wait_release env_stuck (millis (power_on [])) (power_on [])) = 2005 \<and>
   new_events (power_on []) (wait_release env_stuck (millis (power_on [])) (power_on [])) =
     replicate 402 WdtReset"
proof -
  let ?w' = "wait_release env_stuck (millis (power_on [])) (power_on [])"
  note t = wait_for_release_bounded [where w = "power_on []" and e = env_stuck and LED_PIN = "- 1"]
  from t have a: "new_events (power_on []) ?w' = replicate (length (new_events (power_on []) ?w')) WdtReset"
    by blast
  from t have b: "clock ?w' = 2005" and l: "length (new_events (power_on []) ?w') = 402"
    by simp_all
  have "new_events (power_on []) ?w' = replicate 402 WdtReset"
    by (subst l [symmetric]) (rule a)
  with b show ?thesis by simp
qed



section \<open>Start-up\<close>

lemma timed_events_append: "timed w' = timed w @ tes \<Longrightarrow> timed_events w w' = tes"
  by (simp add: timed_events_def)

text \<open>One round of the halt loop, and \<open>n\<close> of them.\<close>

lemma blink_sel:
  "clock (blink L w) = clock w + 200"
  "timed (blink L w) = timed w @
     (if L \<ge> 0 then [(clock w, DigitalWrite L LOW), (clock w + 100, DigitalWrite L HIGH)] else [])"
  by (simp_all add: blink_def)

lemma halt_blink_rounds:
  "halt_blink n L w = Running w' \<Longrightarrow>
   clock w' = clock w + 200 * n \<and>
   timed w' = timed w @
     concat (map (\<lambda>i. if L \<ge> 0
                         then [(clock w + 200 * i, DigitalWrite L LOW),
                               (clock w + 200 * i + 100, DigitalWrite L HIGH)]
                         else []) [0..<n])"
proof (induction n arbitrary: w w')
  case 0
  then show ?case by simp
next
  case (Suc n)
  let ?row = "\<lambda>c i. if L \<ge> 0
                       then [(c + 200 * i, DigitalWrite L LOW), (c + 200 * i + 100, DigitalWrite L HIGH)]
                       else []"
  from Suc.prems have "halt_blink n L (blink L w) = Running w'"
    by simp
  from Suc.IH [OF this]
  have c: "clock w' = clock w + 200 * Suc n"
    and t: "timed w' = timed (blink L w) @ concat (map (?row (clock (blink L w))) [0..<n])"
    by (simp_all add: blink_sel)
  have shift: "map (?row (clock (blink L w))) [0..<n] = map (?row (clock w)) [Suc 0..<Suc n]"
    by (simp add: map_Suc_upt [symmetric] blink_sel del: upt_Suc)
  have "[0..<Suc n] = 0 # [Suc 0..<Suc n]"
    by (rule upt_conv_Cons) simp
  then have "concat (map (?row (clock w)) [0..<Suc n]) =
             ?row (clock w) 0 @ concat (map (?row (clock w)) [Suc 0..<Suc n])"
    by (simp del: upt_Suc)
  with t shift have "timed w' = timed w @ concat (map (?row (clock w)) [0..<Suc n])"
    by (simp add: blink_sel del: upt_Suc)
  with c show ?case by simp
qed

lemma halt_blink_Running: "halt_blink n L w = Running (world_of (halt_blink n L w))"
  by (induction n arbitrary: w) simp_all

lemma cameraSetup_sel:
  "fst (cameraSetup b w) = camera_init_ok b"
  "clock (snd (cameraSetup b w)) = clock w"
  "\<not> camera_init_ok b \<Longrightarrow>
   timed (snd (cameraSetup b w)) = timed w @
     [(clock w, if psramFound b then CameraInit 10 2 True else CameraInit 12 1 False)]"
  by (simp_all add: cameraSetup_def Let_def split: prod.splits)

lemma setup_sketch_result:
  "setup_sketch n L b w =
     (if camera_init_ok b
      then Returned (emit (Println ''Setup done, ready for button.'')
             (ledOff L (snd (cameraSetup b (emit (CreateDir ''/camera'')
               (emit SdmmcInit (ledOn L (ledSetup L (pinMode BUTTON_PIN w)))))))))
      else halt_blink n L (emit (Println ''Camera init FAILED'')
             (snd (cameraSetup b (emit (CreateDir ''/camera'')
               (emit SdmmcInit (ledOn L (ledSetup L (pinMode BUTTON_PIN w)))))))))"
proof -
  let ?w4 = "emit (CreateDir ''/camera'') (emit SdmmcInit (ledOn L (ledSetup L (pinMode BUTTON_PIN w))))"
  obtain ok w5 where c: "cameraSetup b ?w4 = (ok, w5)"
    by (cases "cameraSetup b ?w4")
  with cameraSetup_sel(1) [of b ?w4] have "ok = camera_init_ok b"
    by simp
  with c show ?thesis
    by (simp add: setup_sketch_def Let_def)
qed

lemma ledSetup_sel:
  "clock (ledSetup L w) = clock w"
  "timed (ledSetup L w) = timed w @
     (if L \<ge> 0 then [(clock w, PinMode L), (clock w, DigitalWrite L HIGH)] else [])"
  by (simp_all add: ledSetup_def digitalWrite_def pinMode_def)

lemma pinMode_sel: "clock (pinMode p w) = clock w" "timed (pinMode p w) = timed w @ [(clock w, PinMode p)]"
  by (simp_all add: pinMode_def)

subsection \<open>Only a camera failure halts\<close>

text \<open>
  Claim C8, as the spec states it, fails for two of its three causes: \<^verbatim>\<open>setup\<close> calls
  \<^verbatim>\<open>sdmmcInit\<close> and \<^verbatim>\<open>createDir\<close> as statements and tests nothing. With a card that
  neither mounts nor takes the directory, and a camera that works, start-up returns and
  the sketch polls (here three times, one unit apart).
\<close>

theorem failed_mount_does_not_halt:
  "\<not> mount_ok boot_no_card \<and> \<not> mkdir_ok boot_no_card \<and>
   sketch 5 (- 1) boot_no_card (button_env [] io_good) [] [1, 1, 1] =
     Returned \<lparr>clock = 3, dir = [],
            trace = [PinMode 47, SdmmcInit, CreateDir ''/camera'', CameraInit 10 2 True,
                     SensorTune, Println ''Setup done, ready for button.''],
            timed = [(0, PinMode 47), (0, SdmmcInit), (0, CreateDir ''/camera''),
                     (0, CameraInit 10 2 True), (0, SensorTune),
                     (0, Println ''Setup done, ready for button.'')],
            last_st = HIGH, edge_st = 0\<rparr>"
  by code_simp

text \<open>
  Claim C8, amended. \<^verbatim>\<open>setup\<close> returns, and the poll loop is entered, if and only if the
  camera initialisation succeeds; the answers of the card play no part. When it fails,
  \<^verbatim>\<open>setup\<close> is still in its halt loop after any number \<open>n\<close> of rounds, and what it has
  done by then, call by call with the time of each, is: the start-up calls, the line
  \<^verbatim>\<open>Camera init FAILED\<close>, and then, in round \<open>i\<close> and when an indicator line is
  configured, the indicator driven low (on) at 200 \<open>i\<close> units after start-up and high (off)
  100 units later, that is on for 100 units and off for 100 units (with \<^verbatim>\<open>LED_PIN = -1\<close>, as
  the sketch sets it, nothing is driven). No poll is ever made: the world of the sketch is
  that of \<^verbatim>\<open>setup\<close>, whatever the poll schedule.
\<close>

theorem camera_failure_halts:
  "returned (setup_sketch n LED_PIN b w) = camera_init_ok b \<and>
   returned (sketch n LED_PIN b e d gs) = camera_init_ok b \<and>
   (\<not> camera_init_ok b \<longrightarrow>
      timed_events w (world_of (setup_sketch n LED_PIN b w)) =
        map (Pair (clock w))
          ([PinMode BUTTON_PIN] @
           (if LED_PIN \<ge> 0
            then [PinMode LED_PIN, DigitalWrite LED_PIN HIGH, DigitalWrite LED_PIN LOW]
            else []) @
           [SdmmcInit, CreateDir ''/camera'',
            if psramFound b then CameraInit 10 2 True else CameraInit 12 1 False,
            Println ''Camera init FAILED'']) @
        concat (map (\<lambda>i. if LED_PIN \<ge> 0
                            then [(clock w + 200 * i, DigitalWrite LED_PIN LOW),
                                  (clock w + 200 * i + 100, DigitalWrite LED_PIN HIGH)]
                            else []) [0..<n]) \<and>
      clock (world_of (setup_sketch n LED_PIN b w)) = clock w + 200 * n \<and>
      world_of (sketch n LED_PIN b e d gs) = world_of (setup_sketch n LED_PIN b (power_on d)))"
proof (cases "camera_init_ok b")
  case True
  then show ?thesis
    by (simp add: sketch_def setup_sketch_result)
next
  case False
  let ?w5 = "snd (cameraSetup b (emit (CreateDir ''/camera'')
               (emit SdmmcInit (ledOn LED_PIN (ledSetup LED_PIN (pinMode BUTTON_PIN w))))))"
  let ?w6 = "emit (Println ''Camera init FAILED'') ?w5"
  have s: "setup_sketch n LED_PIN b w' =
           halt_blink n LED_PIN (emit (Println ''Camera init FAILED'')
             (snd (cameraSetup b (emit (CreateDir ''/camera'')
               (emit SdmmcInit (ledOn LED_PIN (ledSetup LED_PIN (pinMode BUTTON_PIN w'))))))))"
    for w'
    using False by (simp add: setup_sketch_result)
  have run: "setup_sketch n LED_PIN b w' = Running (world_of (setup_sketch n LED_PIN b w'))" for w'
    unfolding s by (rule halt_blink_Running)
  have c6: "clock ?w6 = clock w"
    by (simp add: cameraSetup_sel ledSetup_sel pinMode_sel)
  have t6: "timed ?w6 = timed w @
      map (Pair (clock w))
        ([PinMode BUTTON_PIN] @
         (if LED_PIN \<ge> 0
          then [PinMode LED_PIN, DigitalWrite LED_PIN HIGH, DigitalWrite LED_PIN LOW]
          else []) @
         [SdmmcInit, CreateDir ''/camera'',
          if psramFound b then CameraInit 10 2 True else CameraInit 12 1 False,
          Println ''Camera init FAILED''])"
    using False by (simp add: cameraSetup_sel ledSetup_sel pinMode_sel)
  from halt_blink_rounds [OF run [of w, unfolded s [of w]], folded s [of w]]
  have rounds: "clock (world_of (setup_sketch n LED_PIN b w)) = clock ?w6 + 200 * n"
    "timed (world_of (setup_sketch n LED_PIN b w)) = timed ?w6 @
       concat (map (\<lambda>i. if LED_PIN \<ge> 0
                           then [(clock ?w6 + 200 * i, DigitalWrite LED_PIN LOW),
                                 (clock ?w6 + 200 * i + 100, DigitalWrite LED_PIN HIGH)]
                           else []) [0..<n])"
    by simp_all
  have "timed_events w (world_of (setup_sketch n LED_PIN b w)) =
        map (Pair (clock w))
          ([PinMode BUTTON_PIN] @
           (if LED_PIN \<ge> 0
            then [PinMode LED_PIN, DigitalWrite LED_PIN HIGH, DigitalWrite LED_PIN LOW]
            else []) @
           [SdmmcInit, CreateDir ''/camera'',
            if psramFound b then CameraInit 10 2 True else CameraInit 12 1 False,
            Println ''Camera init FAILED'']) @
        concat (map (\<lambda>i. if LED_PIN \<ge> 0
                            then [(clock w + 200 * i, DigitalWrite LED_PIN LOW),
                                  (clock w + 200 * i + 100, DigitalWrite LED_PIN HIGH)]
                            else []) [0..<n])"
    by (rule timed_events_append) (simp only: rounds(2) t6 c6 append_assoc)
  moreover have "clock (world_of (setup_sketch n LED_PIN b w)) = clock w + 200 * n"
    using rounds(1) c6 by simp
  moreover have "\<not> returned (setup_sketch n LED_PIN b w')" for w'
    by (subst run) simp
  moreover have "sketch n LED_PIN b e d gs = Running (world_of (setup_sketch n LED_PIN b (power_on d)))"
    by (subst sketch_def, subst run) simp
  ultimately show ?thesis
    using False by simp
qed

theorem camera_failure_halts_witness:
  "\<not> camera_init_ok boot_no_camera \<and>
   \<not> returned (setup_sketch 2 2 boot_no_camera (power_on [])) \<and>
   \<not> returned (sketch 2 2 boot_no_camera env_stuck [] [1, 1, 1]) \<and>
   timed_events (power_on []) (world_of (setup_sketch 2 2 boot_no_camera (power_on []))) =
     [(0, PinMode 47), (0, PinMode 2), (0, DigitalWrite 2 HIGH), (0, DigitalWrite 2 LOW),
      (0, SdmmcInit), (0, CreateDir ''/camera''), (0, CameraInit 10 2 True),
      (0, Println ''Camera init FAILED''),
      (0, DigitalWrite 2 LOW), (100, DigitalWrite 2 HIGH),
      (200, DigitalWrite 2 LOW), (300, DigitalWrite 2 HIGH)]"
  using camera_failure_halts [of 2 2 boot_no_camera "power_on []" env_stuck "[]" "[1, 1, 1]"]
  by (simp add: boot_no_camera_def boot_ok_def BUTTON_PIN_def upt_rec)

section \<open>The paths of a session\<close>












lemma saved_paths_statics [simp]:
  "saved_paths (last_st_update f w) = saved_paths w"
  "saved_paths (edge_st_update g w) = saved_paths w"
  "saved_paths (delay n w) = saved_paths w"
  by (simp_all add: saved_paths_def)














subsection \<open>Distinct paths\<close>





end
